theory Spec2Isabelle
  imports Main "HOL-Library.AList"
begin

section \<open>Data model\<close>

text \<open>
  The chat room hook (\<^verbatim>\<open>useChatRoom\<close>) and the reaction hook
  (\<^verbatim>\<open>useReactionHandling\<close>) keep an array of message objects in React state and a
  number of mutable refs. JavaScript objects and arrays have an identity that the code
  compares with \<^verbatim>\<open>===\<close>. The objects of this program are never mutated in place
  (every change builds a new object or a new array), so an object is modelled as its
  fields together with an address \<open>oid\<close>, and \<^verbatim>\<open>a === b\<close> on objects is
  equality of addresses. The array held in the \<^verbatim>\<open>messages\<close> state is its element
  list together with the address \<open>messages_ref\<close>. New objects take their address from
  the allocation counter \<open>next_addr\<close>.

  A field that may be \<^verbatim>\<open>undefined\<close> is an \<open>option\<close>. A timestamp is a number of
  milliseconds since the epoch (a timestamp given as a string is outside the model).
  The \<^verbatim>\<open>reactions\<close> object is a map from the reaction symbol to the list of user
  ids, its own properties; the order of its keys is not modelled.
\<close>

type_synonym ref = nat

record reader =
  r_userId :: "string option"
  r_id :: "string option"
  readAt :: "int option"

record message =
  oid :: ref
  msg_id :: "string option"
  timestamp :: "int option"
  content :: "string option"
  reactions :: "(string \<rightharpoonup> string list) option"
  readers :: "reader list option"

text \<open>The object literal \<^verbatim>\<open>{}\<close>, allocated at address \<open>a\<close>.\<close>

definition empty_object :: "ref \<Rightarrow> message" where
  "empty_object a =
     \<lparr>oid = a, msg_id = None, timestamp = None, content = None,
      reactions = None, readers = None\<rparr>"

text \<open>
  The transport: \<^verbatim>\<open>socketRef.current\<close> is \<open>None\<close> when there is no socket.
  \<open>emit_throws\<close> says whether a call of \<^verbatim>\<open>emit\<close> raises.
\<close>

record socket =
  connected :: bool
  emit_throws :: bool
  listeners :: "string set"

text \<open>
  The user-visible status strings of the source are Korean sentences; each is a
  constructor here. \<open>OtherNotice\<close> stands for a string set elsewhere.
\<close>

datatype notice =
    ConnectionLostRetrying
  | CleanupFailed
  | MessageProcessingFailed
  | ReactionAddFailed
  | OtherNotice string

datatype reaction_type = Add | Remove

datatype outbound =
    LeaveRoom "string option"
  | MessageReaction "string option" string reaction_type

datatype exn =
    InvalidMessagesFormat
  | InvalidResponseFormat
  | SocketNotConnected
  | EmitFailed
  | TypeError

text \<open>
  The state of the hook. \<open>error\<close> is \<open>None\<close> for the two falsy values the source
  stores (\<^verbatim>\<open>""\<close> and \<^verbatim>\<open>null\<close>). \<open>toasts\<close> and \<open>emitted\<close> log the calls of
  \<^verbatim>\<open>Toast.error\<close> and of \<^verbatim>\<open>socket.emit\<close>.
\<close>

record chat_state =
  messages :: "message list"
  messages_ref :: ref
  next_addr :: ref
  processedMessageIds :: "string set"
  previousMessagesRef :: "string set"
  messageProcessingRef :: bool
  mountedRef :: bool
  cleanupInProgressRef :: bool
  initialLoadCompletedRef :: bool
  loadMoreTimeoutRef :: "nat option"
  userRooms :: "string set"
  roomId :: "string option"
  socketRef :: "socket option"
  error :: "notice option"
  loading :: bool
  loadingMessages :: bool
  hasMoreMessages :: bool
  toasts :: "notice list"
  emitted :: "outbound list"

text \<open>Truthiness of a string that may be undefined: \<^verbatim>\<open>!!v\<close>.\<close>

definition truthy_str :: "string option \<Rightarrow> bool" where
  "truthy_str v = (case v of None \<Rightarrow> False | Some x \<Rightarrow> x \<noteq> [])"

text \<open>\<^verbatim>\<open>arr.findIndex(p)\<close>, with \<open>None\<close> for \<^verbatim>\<open>-1\<close>.\<close>

fun findIndex :: "('a \<Rightarrow> bool) \<Rightarrow> 'a list \<Rightarrow> nat option" where
  "findIndex p [] = None"
| "findIndex p (x # xs) = (if p x then Some 0 else map_option Suc (findIndex p xs))"

section \<open>useReactionHandling\<close>

text \<open>
  \<^verbatim>\<open>updateSingleMessage(messageId, updater)\<close>. The updater is a JavaScript function
  from a message object to a message object; it receives the next free address, at
  which it allocates the object it builds, if it builds one.
\<close>

definition updateSingleMessage ::
  "string option \<Rightarrow> (ref \<Rightarrow> message \<Rightarrow> message) \<Rightarrow> chat_state \<Rightarrow> chat_state" where
  "updateSingleMessage messageId updater s =
     (let prev = messages s in
      case findIndex (\<lambda>m. msg_id m = messageId) prev of
        None \<Rightarrow> s
      | Some index \<Rightarrow>
          (let oldMessage = prev ! index;
               updatedMessage = updater (next_addr s) oldMessage
           in if oid updatedMessage = oid oldMessage then s
              else s\<lparr>messages := prev[index := updatedMessage],
                     messages_ref := Suc (next_addr s),
                     next_addr := Suc (Suc (next_addr s))\<rparr>))"

text \<open>
  The names every plain object inherits from \<^verbatim>\<open>Object.prototype\<close>. Reading one of
  them from an object that has no own property of that name yields the inherited
  value (a function, or the prototype itself for \<^verbatim>\<open>__proto__\<close>), not
  \<^verbatim>\<open>undefined\<close>.
\<close>

definition Object_prototype :: "string set" where
  "Object_prototype =
     {''constructor'', ''toString'', ''toLocaleString'', ''valueOf'', ''hasOwnProperty'',
      ''isPrototypeOf'', ''propertyIsEnumerable'', ''__proto__'', ''__defineGetter__'',
      ''__defineSetter__'', ''__lookupGetter__'', ''__lookupSetter__''}"

text \<open>
  The updater of \<^verbatim>\<open>handleReactionAdd\<close>, for the user \<open>uid\<close> (the id of
  \<^verbatim>\<open>currentUser\<close>, which is not null). \<^verbatim>\<open>currentReactions[reaction] || []\<close> is the
  own list, or the empty list when the lookup is undefined; when the lookup finds an
  inherited value instead, \<^verbatim>\<open>users.includes\<close> is not a function and the updater
  raises a TypeError.
\<close>

definition add_updater :: "string \<Rightarrow> string \<Rightarrow> ref \<Rightarrow> message \<Rightarrow> exn + message" where
  "add_updater uid reaction a msg =
     (let currentReactions = (case reactions msg of None \<Rightarrow> Map.empty | Some r \<Rightarrow> r)
      in if currentReactions reaction = None \<and> reaction \<in> Object_prototype
         then Inl TypeError
         else
           (let users = (case currentReactions reaction of None \<Rightarrow> [] | Some u \<Rightarrow> u)
            in if uid \<in> set users then Inr msg
               else Inr (msg\<lparr>oid := a,
                          reactions := Some (currentReactions(reaction \<mapsto> users @ [uid]))\<rparr>)))"

text \<open>
  The rollback updater \<^verbatim>\<open>() => messages.find((m) => m._id === messageId) || {}\<close>,
  where \<^verbatim>\<open>messages\<close> is the array captured by the callback when it was created.
\<close>

definition rollback_updater :: "message list \<Rightarrow> string option \<Rightarrow> ref \<Rightarrow> message \<Rightarrow> message" where
  "rollback_updater snapshot messageId a msg =
     (case find (\<lambda>m. msg_id m = messageId) snapshot of
        Some m \<Rightarrow> m
      | None \<Rightarrow> empty_object a)"

definition emit :: "outbound \<Rightarrow> chat_state \<Rightarrow> exn + chat_state" where
  "emit ev s =
     (case socketRef s of
        None \<Rightarrow> Inl SocketNotConnected
      | Some so \<Rightarrow>
          if emit_throws so then Inl EmitFailed
          else Inr (s\<lparr>emitted := emitted s @ [ev]\<rparr>))"

text \<open>
  \<^verbatim>\<open>updateSingleMessage\<close> with the updater of \<^verbatim>\<open>handleReactionAdd\<close>. The
  updater is given to \<^verbatim>\<open>setMessages\<close> and runs when React computes the next state,
  on the located message only; \<open>Inl\<close> is the exception it raises there.
\<close>

definition optimisticAdd ::
  "string \<Rightarrow> string option \<Rightarrow> string \<Rightarrow> chat_state \<Rightarrow> exn + chat_state" where
  "optimisticAdd uid messageId reaction s =
     (case findIndex (\<lambda>m. msg_id m = messageId) (messages s) of
        None \<Rightarrow> Inr s
      | Some index \<Rightarrow>
          (case add_updater uid reaction (next_addr s) (messages s ! index) of
             Inl e \<Rightarrow> Inl e
           | Inr updatedMessage \<Rightarrow>
               Inr (updateSingleMessage messageId (\<lambda>a msg. updatedMessage) s)))"

text \<open>
  \<^verbatim>\<open>handleReactionAdd(messageId, reaction)\<close> for the current user \<open>uid\<close>;
  \<open>snapshot\<close> is the \<^verbatim>\<open>messages\<close> array the callback closed over. The \<^verbatim>\<open>catch\<close>
  block shows the toast and rolls back. An exception of the optimistic updater is
  raised by React outside the handler, so the \<^verbatim>\<open>try\<close> does not catch it: the
  result is then \<open>Inl\<close>, whatever the emit did.
\<close>

definition handleReactionAdd ::
  "message list \<Rightarrow> string \<Rightarrow> string option \<Rightarrow> string \<Rightarrow> chat_state \<Rightarrow> exn + chat_state" where
  "handleReactionAdd snapshot uid messageId reaction s =
     (let rollback = (\<lambda>s1. updateSingleMessage messageId (rollback_updater snapshot messageId)
                               (s1\<lparr>toasts := toasts s1 @ [ReactionAddFailed]\<rparr>))
      in if \<not> (case socketRef s of None \<Rightarrow> False | Some so \<Rightarrow> connected so)
         then Inr (rollback s)
         else
           (case optimisticAdd uid messageId reaction s of
              Inl e \<Rightarrow> Inl e
            | Inr s1 \<Rightarrow>
                (case emit (MessageReaction messageId reaction Add) s1 of
                   Inl e \<Rightarrow> Inr (rollback s1)
                 | Inr s2 \<Rightarrow> Inr s2)))"

text \<open>\<^verbatim>\<open>handleReactionUpdate({ messageId, reactions })\<close>.\<close>

definition handleReactionUpdate ::
  "string option \<Rightarrow> (string \<rightharpoonup> string list) option \<Rightarrow> chat_state \<Rightarrow> chat_state" where
  "handleReactionUpdate messageId rs s =
     updateSingleMessage messageId (\<lambda>a msg. msg\<lparr>oid := a, reactions := rs\<rparr>) s"

section \<open>useChatRoom\<close>

subsection \<open>History batches: processMessages\<close>

text \<open>
  The \<^verbatim>\<open>filter\<close> callback of \<^verbatim>\<open>processMessages\<close> reads and extends the set
  \<^verbatim>\<open>processedMessageIds\<close> while it runs over the batch, so the filter is a recursion
  that threads the set. It returns \<^verbatim>\<open>newMessages\<close> and the set afterwards.
\<close>

fun newMessages :: "string set \<Rightarrow> message list \<Rightarrow> message list \<times> string set" where
  "newMessages seen [] = ([], seen)"
| "newMessages seen (msg # rest) =
     (case msg_id msg of
        None \<Rightarrow> newMessages seen rest
      | Some i \<Rightarrow>
          if i = [] then newMessages seen rest
          else if i \<in> seen then newMessages seen rest
          else (case newMessages (insert i seen) rest of
                  (acc, seen') \<Rightarrow> (msg # acc, seen')))"

text \<open>The number given to the Date constructor in the comparator,
  \<^verbatim>\<open>a.timestamp || 0\<close>.\<close>

definition ts_key :: "message \<Rightarrow> int" where
  "ts_key m = (case timestamp m of None \<Rightarrow> 0 | Some t \<Rightarrow> t)"

text \<open>
  \<^verbatim>\<open>new Date(t)\<close> is a date when \<open>t\<close> is at most 8.64e15 milliseconds from the
  epoch, and its value in the subtraction is \<open>t\<close>. Beyond that range it is an
  Invalid Date and the subtraction gives \<^verbatim>\<open>NaN\<close>.
\<close>

definition valid_date :: "message \<Rightarrow> bool" where
  "valid_date m \<longleftrightarrow> - 8640000000000000 \<le> ts_key m \<and> ts_key m \<le> 8640000000000000"

text \<open>
  \<^verbatim>\<open>[...prev, ...newMessages].sort(comparator)\<close>. \<^verbatim>\<open>Array.prototype.sort\<close> is stable,
  and when every date is valid the comparator is the difference of the keys: the
  result is the stable sort by \<open>ts_key\<close>. With an invalid date the comparator
  answers \<^verbatim>\<open>NaN\<close>, it is not a consistent comparator, and the order of the
  result is left to the JavaScript engine: \<open>engine_sort\<close> is what the engine
  returns then.
\<close>

definition allMessages ::
  "(message list \<Rightarrow> message list) \<Rightarrow> message list \<Rightarrow> message list \<Rightarrow> message list" where
  "allMessages engine_sort prev new =
     (if list_all valid_date (prev @ new) then sort_key ts_key (prev @ new)
      else engine_sort (prev @ new))"

text \<open>
  \<^verbatim>\<open>map.set(msg._id, msg)\<close> for each message, then \<^verbatim>\<open>Array.from(map.values())\<close>.
  A \<^verbatim>\<open>Map\<close> keeps its keys in the order of their first insertion and a later
  \<^verbatim>\<open>set\<close> of the same key replaces the value in place, which is what
  \<open>AList.update\<close> does on an association list.
\<close>

definition dedupById :: "message list \<Rightarrow> message list" where
  "dedupById ms = map snd (fold (\<lambda>msg al. AList.update (msg_id msg) msg al) ms [])"

text \<open>The value passed as \<^verbatim>\<open>loadedMessages\<close>: an array of message objects, or
  anything else.\<close>

datatype loaded = NotArray | Arr "message list"

definition processMessages ::
  "(message list \<Rightarrow> message list) \<Rightarrow> loaded \<Rightarrow> bool \<Rightarrow> bool \<Rightarrow> chat_state
     \<Rightarrow> exn + chat_state" where
  "processMessages engine_sort loadedMessages hasMore isInitialLoad s =
     (case loadedMessages of
        NotArray \<Rightarrow> Inl InvalidMessagesFormat
      | Arr batch \<Rightarrow>
          (case newMessages (processedMessageIds s) batch of
             (new, seen') \<Rightarrow>
               Inr (s\<lparr>messages := dedupById (allMessages engine_sort (messages s) new),
                      messages_ref := next_addr s,
                      next_addr := Suc (next_addr s),
                      processedMessageIds := seen',
                      hasMoreMessages := hasMore,
                      initialLoadCompletedRef :=
                        (if isInitialLoad then True else initialLoadCompletedRef s)\<rparr>)))"

subsection \<open>Event listeners\<close>

text \<open>The \<^verbatim>\<open>messagesRead\<close> listener. \<open>now\<close> is the value of \<^verbatim>\<open>new Date()\<close>.
  The \<^verbatim>\<open>map\<close> callback allocates the object built at position \<open>k\<close> of the array
  at address \<open>a + k\<close>.\<close>

definition alreadyRead :: "string \<Rightarrow> message \<Rightarrow> bool" where
  "alreadyRead userId msg =
     (case readers msg of
        None \<Rightarrow> False
      | Some rs \<Rightarrow> list_ex (\<lambda>r. r_userId r = Some userId \<or> r_id r = Some userId) rs)"

definition readAt_value :: "int option \<Rightarrow> int \<Rightarrow> int" where
  "readAt_value ts now = (case ts of None \<Rightarrow> now | Some t \<Rightarrow> if t = 0 then now else t)"

definition markRead :: "string \<Rightarrow> string list \<Rightarrow> int option \<Rightarrow> int \<Rightarrow> ref \<Rightarrow> message \<Rightarrow> message" where
  "markRead userId messageIds ts now a msg =
     (if \<not> (case msg_id msg of None \<Rightarrow> False | Some i \<Rightarrow> i \<in> set messageIds) then msg
      else if alreadyRead userId msg then msg
      else msg\<lparr>oid := a,
               readers := Some ((case readers msg of None \<Rightarrow> [] | Some rs \<Rightarrow> rs) @
                  [\<lparr>r_userId = Some userId, r_id = None,
                    readAt = Some (readAt_value ts now)\<rparr>])\<rparr>)"

fun markReadAll ::
  "string \<Rightarrow> string list \<Rightarrow> int option \<Rightarrow> int \<Rightarrow> ref \<Rightarrow> message list \<Rightarrow> message list" where
  "markReadAll userId messageIds ts now a [] = []"
| "markReadAll userId messageIds ts now a (msg # rest) =
     markRead userId messageIds ts now a msg #
       markReadAll userId messageIds ts now (Suc a) rest"

definition on_messagesRead ::
  "string \<Rightarrow> string list \<Rightarrow> int option \<Rightarrow> int \<Rightarrow> chat_state \<Rightarrow> chat_state" where
  "on_messagesRead userId messageIds ts now s =
     (if \<not> mountedRef s then s
      else s\<lparr>messages := markReadAll userId messageIds ts now (Suc (next_addr s)) (messages s),
             messages_ref := next_addr s,
             next_addr := Suc (next_addr s) + length (messages s)\<rparr>)"

text \<open>The \<^verbatim>\<open>message\<close> listener; the payload is \<open>None\<close> when it is falsy.\<close>

definition on_message :: "message option \<Rightarrow> chat_state \<Rightarrow> chat_state" where
  "on_message payload s =
     (case payload of
        None \<Rightarrow> s
      | Some message \<Rightarrow>
          if \<not> mountedRef s \<or> messageProcessingRef s \<or> \<not> truthy_str (msg_id message) then s
          else
            (case msg_id message of
               None \<Rightarrow> s
             | Some i \<Rightarrow>
                 if i \<in> processedMessageIds s then s
                 else
                   (let s1 = s\<lparr>processedMessageIds := insert i (processedMessageIds s)\<rparr>
                    in if list_ex (\<lambda>m. msg_id m = msg_id message) (messages s1) then s1
                       else s1\<lparr>messages := messages s1 @ [message],
                               messages_ref := next_addr s1,
                               next_addr := Suc (next_addr s1)\<rparr>)))"

text \<open>
  The payload of \<^verbatim>\<open>previousMessages\<close>: \<open>NotObject\<close> is a value that is falsy or
  whose \<^verbatim>\<open>typeof\<close> is not \<^verbatim>\<open>"object"\<close>. The field \<^verbatim>\<open>messages\<close> of an object is
  \<open>None\<close> when it is undefined, and the destructuring default \<^verbatim>\<open>= []\<close> applies then.
\<close>

datatype response = NotObject | Obj "loaded option" bool

text \<open>\<open>snapshot\<close> is the \<^verbatim>\<open>messages\<close> array the listener closed over; the body of
  the \<^verbatim>\<open>try\<close> block returns the state reached when it raises.\<close>

definition previousMessages_try ::
  "(message list \<Rightarrow> message list) \<Rightarrow> message list \<Rightarrow> response \<Rightarrow> chat_state
     \<Rightarrow> exn + chat_state" where
  "previousMessages_try engine_sort snapshot resp s =
     (case resp of
        NotObject \<Rightarrow> Inl InvalidResponseFormat
      | Obj field hasMore \<Rightarrow>
          (let loadedMessages = (case field of None \<Rightarrow> Arr [] | Some l \<Rightarrow> l);
               isInitialLoad = (length snapshot = 0)
           in case processMessages engine_sort loadedMessages hasMore isInitialLoad s of
                Inl e \<Rightarrow> Inl e
              | Inr s' \<Rightarrow> Inr (s'\<lparr>loadingMessages := False\<rparr>)))"

definition handlePreviousMessages ::
  "(message list \<Rightarrow> message list) \<Rightarrow> message list \<Rightarrow> response \<Rightarrow> chat_state
     \<Rightarrow> chat_state" where
  "handlePreviousMessages engine_sort snapshot resp s =
     (if \<not> mountedRef s \<or> messageProcessingRef s then s
      else
        (let s1 = s\<lparr>messageProcessingRef := True\<rparr>;
             s2 = (case previousMessages_try engine_sort snapshot resp s1 of
                     Inr s' \<Rightarrow> s'
                   | Inl e \<Rightarrow> s1\<lparr>loadingMessages := False,
                                error := Some MessageProcessingFailed,
                                hasMoreMessages := False\<rparr>)
         in s2\<lparr>messageProcessingRef := False\<rparr>))"

text \<open>The \<^verbatim>\<open>messageReactionUpdate\<close> listener.\<close>

definition on_messageReactionUpdate ::
  "string option \<Rightarrow> (string \<rightharpoonup> string list) option \<Rightarrow> chat_state \<Rightarrow> chat_state" where
  "on_messageReactionUpdate messageId rs s =
     (if \<not> mountedRef s then s else handleReactionUpdate messageId rs s)"

subsection \<open>cleanup\<close>

definition detach :: "socket \<Rightarrow> socket" where
  "detach so =
     so\<lparr>listeners := listeners so -
        {''message'', ''previousMessages'', ''previousMessagesLoaded'',
         ''participantsUpdate'', ''messagesRead'', ''messageReactionUpdate'',
         ''session_ended'', ''error''}\<rparr>"

text \<open>The statements of the \<^verbatim>\<open>try\<close> block after the \<^verbatim>\<open>leaveRoom\<close> emit.\<close>

definition cleanup_rest :: "string \<Rightarrow> chat_state \<Rightarrow> chat_state" where
  "cleanup_rest reason s =
     (let s1 = (if reason \<noteq> ''RECONNECT''
                then s\<lparr>socketRef := map_option detach (socketRef s)\<rparr> else s);
          s2 = s1\<lparr>loadMoreTimeoutRef := None,
                  processedMessageIds := {},
                  previousMessagesRef := {},
                  messageProcessingRef := False\<rparr>
      in if reason = ''MANUAL'' \<and> mountedRef s2
         then s2\<lparr>error := None, loading := False, loadingMessages := False,
                 messages := [], messages_ref := next_addr s2,
                 next_addr := Suc (next_addr s2), userRooms := {}\<rparr>
         else if reason = ''DISCONNECT'' \<and> mountedRef s2
         then s2\<lparr>error := Some ConnectionLostRetrying\<rparr>
         else s2)"

text \<open>
  \<^verbatim>\<open>cleanup(reason)\<close>. The reason is the string the caller passes; the parameter's
  default is \<^verbatim>\<open>"MANUAL"\<close>. The early \<^verbatim>\<open>return\<close> for a cleanup in progress is
  inside the \<^verbatim>\<open>try\<close>, so the \<^verbatim>\<open>finally\<close> block runs after it too.
\<close>

definition cleanup :: "string \<Rightarrow> chat_state \<Rightarrow> chat_state" where
  "cleanup reason s =
     (if \<not> mountedRef s \<or> \<not> truthy_str (roomId s) then s
      else if cleanupInProgressRef s then s\<lparr>cleanupInProgressRef := False\<rparr>
      else
        (let s1 = s\<lparr>cleanupInProgressRef := True\<rparr>;
             left = (if (case socketRef s1 of None \<Rightarrow> False | Some so \<Rightarrow> connected so)
                     then emit (LeaveRoom (roomId s1)) s1 else Inr s1);
             s2 = (case left of
                     Inr s' \<Rightarrow> cleanup_rest reason s'
                   | Inl e \<Rightarrow> if mountedRef s1 then s1\<lparr>error := Some CleanupFailed\<rparr> else s1)
         in s2\<lparr>cleanupInProgressRef := False\<rparr>))"

text \<open>The table \<^verbatim>\<open>CLEANUP_REASONS\<close> of the source.\<close>

definition CLEANUP_REASONS_DISCONNECT :: string where
  "CLEANUP_REASONS_DISCONNECT = ''disconnect''"

definition CLEANUP_REASONS_MANUAL :: string where
  "CLEANUP_REASONS_MANUAL = ''manual''"

subsection \<open>Histories of admissions\<close>

text \<open>
  An admission is a live \<^verbatim>\<open>message\<close> event or a history batch
  (\<^verbatim>\<open>previousMessages\<close>). Handlers run to completion one after the other.
  \<open>captured\<close> is the \<^verbatim>\<open>messages\<close> array the listeners closed over when
  \<^verbatim>\<open>setupEventListeners\<close> registered them (the array is not among the
  dependencies of that callback); it only decides \<^verbatim>\<open>isInitialLoad\<close>.
\<close>

datatype event = Message "message option" | PreviousMessages response

fun step ::
  "(message list \<Rightarrow> message list) \<Rightarrow> message list \<Rightarrow> event \<Rightarrow> chat_state \<Rightarrow> chat_state" where
  "step engine_sort captured (Message payload) s = on_message payload s"
| "step engine_sort captured (PreviousMessages resp) s =
     handlePreviousMessages engine_sort captured resp s"

definition run ::
  "(message list \<Rightarrow> message list) \<Rightarrow> message list \<Rightarrow> event list \<Rightarrow> chat_state \<Rightarrow> chat_state" where
  "run engine_sort captured evs s = fold (step engine_sort captured) evs s"

text \<open>The state of a freshly mounted hook on the room \<open>room\<close> with the socket \<open>so\<close>.\<close>

definition initial_state :: "string option \<Rightarrow> socket option \<Rightarrow> chat_state" where
  "initial_state room so =
     \<lparr>messages = [], messages_ref = 0, next_addr = 1,
      processedMessageIds = {}, previousMessagesRef = {},
      messageProcessingRef = False, mountedRef = True,
      cleanupInProgressRef = False, initialLoadCompletedRef = False,
      loadMoreTimeoutRef = None, userRooms = {}, roomId = room, socketRef = so,
      error = None, loading = True, loadingMessages = False, hasMoreMessages = True,
      toasts = [], emitted = []\<rparr>"

text \<open>The store is sorted ascending by timestamp.\<close>

definition store_sorted :: "chat_state \<Rightarrow> bool" where
  "store_sorted s = sorted (map ts_key (messages s))"

section \<open>Predicates of the properties\<close>

text \<open>
  Every message object of the store was allocated before the next free address: the
  allocator never hands out the address of a live object.
\<close>

definition addrs_fresh :: "chat_state \<Rightarrow> bool" where
  "addrs_fresh s = list_all (\<lambda>m. oid m < next_addr s) (messages s)"

text \<open>A candidate that admission rejects against the set \<open>seen\<close>: its id is missing
  (undefined or empty, the values \<^verbatim>\<open>!msg._id\<close> accepts) or is in the set.\<close>

definition rejected :: "string set \<Rightarrow> message \<Rightarrow> bool" where
  "rejected seen m = (case msg_id m of None \<Rightarrow> True | Some i \<Rightarrow> i = [] \<or> i \<in> seen)"

text \<open>Two message objects with the same fields, whatever their addresses.\<close>

definition same_fields :: "message \<Rightarrow> message \<Rightarrow> bool" where
  "same_fields m m' = (m\<lparr>oid := oid m'\<rparr> = m')"

text \<open>The number of entries of a message's \<^verbatim>\<open>readers\<close> that stand for the user \<open>u\<close>,
  by the test the \<^verbatim>\<open>messagesRead\<close> listener uses.\<close>

definition entries_for :: "string \<Rightarrow> message \<Rightarrow> nat" where
  "entries_for u m =
     length (filter (\<lambda>r. r_userId r = Some u \<or> r_id r = Some u)
       (case readers m of None \<Rightarrow> [] | Some rs \<Rightarrow> rs))"


text \<open>The leaveRoom emit of \<^verbatim>\<open>cleanup\<close> does not raise: there is no connected
  socket, or its \<^verbatim>\<open>emit\<close> returns.\<close>

definition leave_ok :: "chat_state \<Rightarrow> bool" where
  "leave_ok s =
     (case socketRef s of None \<Rightarrow> True | Some so \<Rightarrow> \<not> (connected so \<and> emit_throws so))"



text \<open>The dates of an event's messages are all valid.\<close>

fun event_dates_ok :: "event \<Rightarrow> bool" where
  "event_dates_ok (Message None) = True"
| "event_dates_ok (Message (Some m)) = valid_date m"
| "event_dates_ok (PreviousMessages (Obj (Some (Arr batch)) hasMore)) = list_all valid_date batch"
| "event_dates_ok (PreviousMessages resp) = True"

text \<open>A connected socket whose \<^verbatim>\<open>emit\<close> returns, with the listeners of
  \<^verbatim>\<open>setupEventListeners\<close> registered.\<close>

definition open_socket :: socket where
  "open_socket =
     \<lparr>connected = True, emit_throws = False,
      listeners = {''message'', ''previousMessages'', ''previousMessagesLoaded'',
         ''participantsUpdate'', ''messagesRead'', ''messageReactionUpdate'',
         ''session_ended'', ''error''}\<rparr>"

text \<open>A text message with the given address, id and timestamp.\<close>

definition mk_message :: "ref \<Rightarrow> string \<Rightarrow> int \<Rightarrow> message" where
  "mk_message a i t =
     \<lparr>oid = a, msg_id = Some i, timestamp = Some t, content = None,
      reactions = None, readers = None\<rparr>"

text \<open>Every entry of the store has an id, the ids are distinct, each is in
  \<^verbatim>\<open>processedMessageIds\<close>, and every date is valid: the state that admissions of
  messages with valid dates produce.\<close>

definition admitted :: "chat_state \<Rightarrow> bool" where
  "admitted s \<longleftrightarrow>
     distinct (map msg_id (messages s)) \<and>
     list_all (\<lambda>m. msg_id m \<in> Some ` processedMessageIds s) (messages s) \<and>
     list_all valid_date (messages s)"

section \<open>Lemmas on the store operations\<close>

lemma findIndex_SomeD:
  "findIndex p xs = Some i \<Longrightarrow> i < length xs \<and> p (xs ! i)"
  by (induction xs arbitrary: i) (auto split: if_splits)

lemma findIndex_find:
  "findIndex p xs = Some i \<Longrightarrow> find p xs = Some (xs ! i)"
  by (induction xs arbitrary: i) (auto split: if_splits)

lemma findIndex_update:
  "findIndex p xs = Some i \<Longrightarrow> p y \<Longrightarrow> findIndex p (xs[i := y]) = Some i"
  by (induction xs arbitrary: i) (auto split: if_splits)

lemma findIndex_present:
  "list_ex p xs \<Longrightarrow> \<exists>i. findIndex p xs = Some i"
  by (induction xs) auto

subsection \<open>The Map of processMessages keeps one entry per id\<close>

lemma fold_update_distinct:
  "distinct (map fst al) \<Longrightarrow> distinct (map fst (fold (\<lambda>m. AList.update (k m) m) ms al))"
  by (induction ms arbitrary: al) (simp_all add: distinct_update)

lemma update_keyed:
  "\<forall>p \<in> set al. k (snd p) = fst p \<Longrightarrow> \<forall>p \<in> set (AList.update (k m) m al). k (snd p) = fst p"
  by (induction al) auto

lemma fold_update_keyed:
  "\<forall>p \<in> set al. k (snd p) = fst p \<Longrightarrow>
   \<forall>p \<in> set (fold (\<lambda>m. AList.update (k m) m) ms al). k (snd p) = fst p"
proof (induction ms arbitrary: al)
  case Nil
  then show ?case by simp
next
  case (Cons m ms)
  from update_keyed [OF Cons.prems]
  have "\<forall>p \<in> set (AList.update (k m) m al). k (snd p) = fst p" .
  from Cons.IH [OF this] show ?case by simp
qed

lemma dedupById_distinct: "distinct (map msg_id (dedupById ms))"
proof -
  let ?al = "fold (\<lambda>m. AList.update (msg_id m) m) ms []"
  have k: "\<forall>p \<in> set ?al. msg_id (snd p) = fst p"
    by (rule fold_update_keyed) simp
  have eq: "map msg_id (map snd ?al) = map fst ?al" using k by simp
  have d: "distinct (map fst ?al)" by (rule fold_update_distinct) simp
  show ?thesis unfolding dedupById_def eq by (rule d)
qed

lemma update_new_key: "k \<notin> fst ` set al \<Longrightarrow> AList.update k v al = al @ [(k, v)]"
  by (induction al) auto

lemma fold_update_new_keys:
  "distinct (map fst al @ map k ms) \<Longrightarrow>
   map snd (fold (\<lambda>m. AList.update (k m) m) ms al) = map snd al @ ms"
proof (induction ms arbitrary: al)
  case Nil
  then show ?case by simp
next
  case (Cons m ms)
  from Cons.prems have new: "k m \<notin> fst ` set al" by auto
  from Cons.prems have "distinct (map fst (al @ [(k m, m)]) @ map k ms)" by auto
  from Cons.IH [OF this] show ?case by (simp add: update_new_key [OF new])
qed

lemma dedupById_distinct_ids: "distinct (map msg_id ms) \<Longrightarrow> dedupById ms = ms"
  using fold_update_new_keys [of "[]" msg_id ms] by (simp add: dedupById_def)

lemma distinct_map_sort_key: "distinct (map f (sort_key g xs)) = distinct (map f xs)"
  by (simp add: distinct_map)

text \<open>A history batch leaves the store sorted when every date is valid and the ids
  of the old entries and of the admitted ones are all different, which is when the
  Map changes nothing.\<close>

lemma processMessages_sorts:
  assumes "processMessages eng (Arr batch) hasMore isInitialLoad s = Inr s'"
      and "distinct (map msg_id (messages s @ fst (newMessages (processedMessageIds s) batch)))"
      and "list_all valid_date (messages s @ fst (newMessages (processedMessageIds s) batch))"
  shows "store_sorted s'"
proof -
  obtain new seen' where n: "newMessages (processedMessageIds s) batch = (new, seen')"
    by (cases "newMessages (processedMessageIds s) batch")
  from assms(3) n have a: "allMessages eng (messages s) new = sort_key ts_key (messages s @ new)"
    by (simp add: allMessages_def)
  from assms(1) n have m: "messages s' = dedupById (allMessages eng (messages s) new)"
    by (auto simp: processMessages_def)
  from assms(2) n have "distinct (map msg_id (allMessages eng (messages s) new))"
    unfolding a distinct_map_sort_key by simp
  from dedupById_distinct_ids [OF this] m a show ?thesis
    by (simp add: store_sorted_def)
qed

lemma distinct_count_le1:
  "distinct (map f xs) \<Longrightarrow> length (filter (\<lambda>m. f m = v) xs) \<le> 1"
proof (induction xs)
  case Nil
  then show ?case by simp
next
  case (Cons a xs)
  show ?case
  proof (cases "f a = v")
    case True
    with Cons.prems have "filter (\<lambda>m. f m = v) xs = []"
      by (auto simp: filter_empty_conv) (metis imageI)
    with True show ?thesis by simp
  next
    case False
    with Cons show ?thesis by simp
  qed
qed

subsection \<open>Admission keeps the ids of the store distinct\<close>

lemma on_message_distinct:
  "distinct (map msg_id (messages s)) \<Longrightarrow> distinct (map msg_id (messages (on_message p s)))"
  by (auto simp: on_message_def Let_def list_ex_iff split: option.splits)

lemma processMessages_distinct:
  "processMessages eng l h i s = Inr s' \<Longrightarrow> distinct (map msg_id (messages s'))"
  by (auto simp: processMessages_def dedupById_distinct split: loaded.splits prod.splits)

lemma previousMessages_try_distinct:
  "previousMessages_try eng snap r s = Inr s' \<Longrightarrow> distinct (map msg_id (messages s'))"
  by (auto simp: previousMessages_try_def Let_def dest: processMessages_distinct
      split: response.splits sum.splits)

lemma handlePreviousMessages_distinct:
  assumes "distinct (map msg_id (messages s))"
  shows "distinct (map msg_id (messages (handlePreviousMessages eng snap r s)))"
proof (cases "previousMessages_try eng snap r (s\<lparr>messageProcessingRef := True\<rparr>)")
  case (Inl e)
  with assms show ?thesis by (simp add: handlePreviousMessages_def Let_def)
next
  case (Inr s')
  from previousMessages_try_distinct [OF Inr] assms Inr show ?thesis
    by (simp add: handlePreviousMessages_def Let_def)
qed

lemma step_distinct:
  "distinct (map msg_id (messages s)) \<Longrightarrow> distinct (map msg_id (messages (step eng captured e s)))"
  by (cases e) (simp_all add: on_message_distinct handlePreviousMessages_distinct)

lemma run_distinct:
  "distinct (map msg_id (messages s)) \<Longrightarrow> distinct (map msg_id (messages (run eng captured evs s)))"
  unfolding run_def by (induction evs arbitrary: s) (simp_all add: step_distinct)

lemma newMessages_skip:
  "rejected seen m \<Longrightarrow> newMessages seen (xs @ m # ys) = newMessages seen (xs @ ys)"
proof (induction xs arbitrary: seen)
  case Nil
  then show ?case by (auto simp: rejected_def split: option.splits)
next
  case (Cons x xs)
  have r: "rejected (insert i seen) m" for i
    using Cons.prems by (auto simp: rejected_def split: option.splits)
  show ?case using Cons.IH [OF Cons.prems] Cons.IH [OF r]
    by (auto split: option.splits)
qed

lemma on_message_rejected:
  "rejected (processedMessageIds s) m \<Longrightarrow> on_message (Some m) s = s"
  by (auto simp: on_message_def rejected_def truthy_str_def split: option.splits)

lemma handlePreviousMessages_skip:
  assumes "rejected (processedMessageIds s) m"
  shows "handlePreviousMessages eng snap (Obj (Some (Arr (xs @ m # ys))) h) s
       = handlePreviousMessages eng snap (Obj (Some (Arr (xs @ ys))) h) s"
proof -
  from assms have "rejected (processedMessageIds (s\<lparr>messageProcessingRef := True\<rparr>)) m" by simp
  from newMessages_skip [OF this]
  have "previousMessages_try eng snap (Obj (Some (Arr (xs @ m # ys))) h) (s\<lparr>messageProcessingRef := True\<rparr>)
      = previousMessages_try eng snap (Obj (Some (Arr (xs @ ys))) h) (s\<lparr>messageProcessingRef := True\<rparr>)"
    by (simp add: previousMessages_try_def processMessages_def)
  then show ?thesis by (simp add: handlePreviousMessages_def)
qed

subsection \<open>History batches sort the store\<close>

lemma newMessages_props:
  "newMessages seen ms = (acc, seen') \<Longrightarrow>
     seen \<subseteq> seen'
     \<and> (\<forall>m \<in> set acc. \<exists>i. msg_id m = Some i \<and> i \<notin> seen \<and> i \<in> seen')
     \<and> distinct (map msg_id acc)
     \<and> set acc \<subseteq> set ms"
proof (induction ms arbitrary: seen acc seen')
  case Nil
  then show ?case by simp
next
  case (Cons msg rest)
  show ?case
  proof (cases "rejected seen msg")
    case True
    then have "newMessages seen (msg # rest) = newMessages seen rest"
      by (auto simp: rejected_def split: option.splits)
    with Cons.prems have "newMessages seen rest = (acc, seen')" by simp
    from Cons.IH [OF this] show ?thesis by auto
  next
    case False
    then obtain i where i: "msg_id msg = Some i" "i \<noteq> []" "i \<notin> seen"
      by (auto simp: rejected_def split: option.splits)
    obtain acc0 seen0 where r: "newMessages (insert i seen) rest = (acc0, seen0)"
      by (cases "newMessages (insert i seen) rest")
    with Cons.prems i have eq: "acc = msg # acc0" "seen' = seen0" by simp_all
    from Cons.IH [OF r]
    have ih1: "insert i seen \<subseteq> seen0"
      and ih2: "\<forall>m \<in> set acc0. \<exists>j. msg_id m = Some j \<and> j \<notin> insert i seen \<and> j \<in> seen0"
      and ih3: "distinct (map msg_id acc0)"
      and ih4: "set acc0 \<subseteq> set rest" by simp_all
    from ih2 have notin: "Some i \<notin> msg_id ` set acc0" by force
    have a: "seen \<subseteq> seen'" using ih1 eq by auto
    have b: "\<forall>m \<in> set acc. \<exists>j. msg_id m = Some j \<and> j \<notin> seen \<and> j \<in> seen'"
      unfolding eq using ih1 ih2 i by auto
    have c: "distinct (map msg_id acc)" unfolding eq using ih3 notin i by simp
    have d: "set acc \<subseteq> set (msg # rest)" unfolding eq using ih4 by auto
    from a b c d show ?thesis by simp
  qed
qed

lemma admitted_processMessages:
  assumes inv: "admitted s"
      and pm: "processMessages eng (Arr batch) hasMore isInitialLoad s = Inr s'"
      and dates: "list_all valid_date batch"
  shows "admitted s' \<and> store_sorted s'"
proof -
  obtain new seen' where n: "newMessages (processedMessageIds s) batch = (new, seen')"
    by (cases "newMessages (processedMessageIds s) batch")
  from newMessages_props [OF n]
  have sub: "processedMessageIds s \<subseteq> seen'"
    and fresh: "\<forall>m \<in> set new. \<exists>i. msg_id m = Some i \<and> i \<notin> processedMessageIds s \<and> i \<in> seen'"
    and dn: "distinct (map msg_id new)"
    and nb: "set new \<subseteq> set batch" by simp_all
  from inv have old: "\<forall>m \<in> set (messages s). \<exists>i. msg_id m = Some i \<and> i \<in> processedMessageIds s"
    by (auto simp: admitted_def list_all_iff)
  have disj: "msg_id ` set (messages s) \<inter> msg_id ` set new = {}"
  proof (rule ccontr)
    assume "msg_id ` set (messages s) \<inter> msg_id ` set new \<noteq> {}"
    then obtain a b where ab: "a \<in> set (messages s)" "b \<in> set new" "msg_id a = msg_id b" by auto
    from old ab(1) obtain i where i: "msg_id a = Some i" "i \<in> processedMessageIds s" by blast
    from fresh ab(2) obtain j where j: "msg_id b = Some j" "j \<notin> processedMessageIds s" by blast
    from i j ab(3) show False by simp
  qed
  from inv dn disj have d: "distinct (map msg_id (messages s @ new))"
    by (simp add: admitted_def)
  from inv dates nb have v: "list_all valid_date (messages s @ new)"
    by (auto simp: admitted_def list_all_iff)
  then have a: "allMessages eng (messages s) new = sort_key ts_key (messages s @ new)"
    by (simp add: allMessages_def)
  from pm n have m: "messages s' = dedupById (allMessages eng (messages s) new)"
    and se: "processedMessageIds s' = seen'"
    by (auto simp: processMessages_def)
  have "store_sorted s'"
    using d v n by (intro processMessages_sorts [OF pm]) simp_all
  moreover
  have ms: "messages s' = sort_key ts_key (messages s @ new)"
    unfolding m a
    by (rule dedupById_distinct_ids) (simp only: distinct_map_sort_key d)
  have "admitted s'"
  proof -
    have "msg_id m \<in> Some ` seen'" if "m \<in> set (messages s @ new)" for m
      using that old fresh sub by auto blast+
    with d v show ?thesis
      unfolding admitted_def ms se by (simp add: distinct_map_sort_key list_all_iff)
  qed
  ultimately show ?thesis by simp
qed

lemma admitted_on_message:
  assumes "admitted s" and "event_dates_ok (Message p)"
  shows "admitted (on_message p s)"
proof (cases p)
  case None
  with assms show ?thesis by (simp add: on_message_def)
next
  case (Some message)
  show ?thesis
  proof (cases "msg_id message")
    case None
    with Some assms show ?thesis by (simp add: on_message_def truthy_str_def)
  next
    case i: (Some i)
    let ?s1 = "s\<lparr>processedMessageIds := insert i (processedMessageIds s)\<rparr>"
    from assms have s1: "admitted ?s1" by (auto simp: admitted_def list_all_iff)
    have app: "admitted (?s1\<lparr>messages := messages ?s1 @ [message],
                 messages_ref := next_addr ?s1, next_addr := Suc (next_addr ?s1)\<rparr>)"
      if "\<not> list_ex (\<lambda>m. msg_id m = msg_id message) (messages ?s1)"
      using that s1 i assms(2) Some by (auto simp: admitted_def list_all_iff list_ex_iff)
    from assms s1 app Some i show ?thesis
      by (simp add: on_message_def Let_def)
  qed
qed

lemma processMessages_Arr: "\<exists>s0. processMessages eng (Arr batch) h i s = Inr s0"
  by (cases "newMessages (processedMessageIds s) batch") (simp add: processMessages_def)

lemma previousMessages_try_InrD:
  assumes "previousMessages_try eng snap r s = Inr s'"
  shows "\<exists>batch h i s0. processMessages eng (Arr batch) h i s = Inr s0
            \<and> s' = s0\<lparr>loadingMessages := False\<rparr>
            \<and> (event_dates_ok (PreviousMessages r) \<longrightarrow> list_all valid_date batch)"
proof (cases r)
  case NotObject
  with assms show ?thesis by (simp add: previousMessages_try_def)
next
  case (Obj field h)
  let ?l = "case field of None \<Rightarrow> Arr [] | Some l \<Rightarrow> l"
  show ?thesis
  proof (cases ?l)
    case NotArray
    with assms Obj show ?thesis by (simp add: previousMessages_try_def processMessages_def)
  next
    case (Arr batch)
    from processMessages_Arr obtain s0
      where s0: "processMessages eng (Arr batch) h (length snap = 0) s = Inr s0" by blast
    with assms Obj Arr have s': "s' = s0\<lparr>loadingMessages := False\<rparr>"
      by (simp add: previousMessages_try_def)
    from Obj Arr have "event_dates_ok (PreviousMessages r) \<longrightarrow> list_all valid_date batch"
      by (cases field) auto
    with s0 s' show ?thesis by blast
  qed
qed

lemma admitted_handlePreviousMessages:
  assumes "admitted s" and "event_dates_ok (PreviousMessages r)"
  shows "admitted (handlePreviousMessages eng snap r s)"
proof (cases "previousMessages_try eng snap r (s\<lparr>messageProcessingRef := True\<rparr>)")
  case (Inl e)
  with assms show ?thesis by (simp add: handlePreviousMessages_def Let_def admitted_def)
next
  case (Inr s')
  from assms have a: "admitted (s\<lparr>messageProcessingRef := True\<rparr>)" by (simp add: admitted_def)
  from previousMessages_try_InrD [OF Inr] assms(2) obtain batch h i s0 where
    pm: "processMessages eng (Arr batch) h i (s\<lparr>messageProcessingRef := True\<rparr>) = Inr s0"
    and s': "s' = s0\<lparr>loadingMessages := False\<rparr>"
    and v: "list_all valid_date batch" by blast
  from admitted_processMessages [OF a pm v] s' have "admitted s'" by (simp add: admitted_def)
  with assms Inr show ?thesis by (simp add: handlePreviousMessages_def Let_def admitted_def)
qed

lemma admitted_run:
  "admitted s \<Longrightarrow> list_all event_dates_ok evs \<Longrightarrow> admitted (run eng captured evs s)"
proof (induction evs arbitrary: s)
  case Nil
  then show ?case by (simp add: run_def)
next
  case (Cons e evs)
  have "admitted (step eng captured e s)"
    using Cons.prems
    by (cases e) (simp_all add: admitted_on_message admitted_handlePreviousMessages)
  from Cons.IH [OF this] Cons.prems show ?case by (simp add: run_def)
qed

lemma admitted_initial: "admitted (initial_state room so)"
  by (simp add: admitted_def initial_state_def)

lemma batch_leaves_store_sorted:
  assumes "admitted s" "mountedRef s" "\<not> messageProcessingRef s" "list_all valid_date batch"
  shows "store_sorted (handlePreviousMessages eng snap (Obj (Some (Arr batch)) h) s)"
proof -
  let ?s1 = "s\<lparr>messageProcessingRef := True\<rparr>"
  from assms(1) have a: "admitted ?s1" by (simp add: admitted_def)
  from processMessages_Arr obtain s0
    where pm: "processMessages eng (Arr batch) h (length snap = 0) ?s1 = Inr s0" by blast
  from admitted_processMessages [OF a pm assms(4)] have "store_sorted s0" by simp
  with assms pm show ?thesis
    by (simp add: handlePreviousMessages_def previousMessages_try_def Let_def store_sorted_def)
qed

lemma processMessages_mounted:
  assumes "processMessages eng l h i s = Inr s'"
  shows "mountedRef s' = mountedRef s"
proof (cases l)
  case NotArray
  with assms show ?thesis by (simp add: processMessages_def)
next
  case (Arr batch)
  obtain new seen' where "newMessages (processedMessageIds s) batch = (new, seen')"
    by (cases "newMessages (processedMessageIds s) batch")
  with assms Arr show ?thesis by (auto simp: processMessages_def)
qed

lemma step_flags:
  "mountedRef (step eng captured e s) = mountedRef s
   \<and> (\<not> messageProcessingRef s \<longrightarrow> \<not> messageProcessingRef (step eng captured e s))"
proof (cases e)
  case (Message p)
  then show ?thesis by (simp add: on_message_def Let_def split: option.splits)
next
  case (PreviousMessages r)
  show ?thesis
  proof (cases "previousMessages_try eng captured r (s\<lparr>messageProcessingRef := True\<rparr>)")
    case (Inl e)
    with PreviousMessages show ?thesis by (simp add: handlePreviousMessages_def Let_def)
  next
    case (Inr s')
    from previousMessages_try_InrD [OF Inr] have "mountedRef s' = mountedRef s"
      by (auto dest: processMessages_mounted)
    with PreviousMessages Inr show ?thesis by (simp add: handlePreviousMessages_def Let_def)
  qed
qed

lemma run_flags:
  "mountedRef s \<Longrightarrow> \<not> messageProcessingRef s
   \<Longrightarrow> mountedRef (run eng captured evs s) \<and> \<not> messageProcessingRef (run eng captured evs s)"
proof (induction evs arbitrary: s)
  case Nil
  then show ?case by (simp add: run_def)
next
  case (Cons e evs)
  from step_flags [of eng captured e s] Cons.prems
  have "mountedRef (step eng captured e s)" "\<not> messageProcessingRef (step eng captured e s)"
    by simp_all
  from Cons.IH [OF this] show ?case by (simp add: run_def)
qed

text \<open>In a history of admissions on a fresh hook, of messages with valid dates, the
  store is sorted after every history batch.\<close>

lemma history_batch_sorted:
  assumes "list_all event_dates_ok evs" and "list_all valid_date batch"
  shows "store_sorted (run eng captured (evs @ [PreviousMessages (Obj (Some (Arr batch)) h)])
     (initial_state room so))"
proof -
  let ?s = "run eng captured evs (initial_state room so)"
  have a: "admitted ?s" by (rule admitted_run) (rule admitted_initial, rule assms(1))
  have "mountedRef ?s \<and> \<not> messageProcessingRef ?s"
    by (rule run_flags) (simp_all add: initial_state_def)
  with a assms(2)
  have "store_sorted (handlePreviousMessages eng captured (Obj (Some (Arr batch)) h) ?s)"
    by (intro batch_leaves_store_sorted) simp_all
  then show ?thesis by (simp add: run_def)
qed

subsection \<open>Rollback of an optimistic reaction\<close>


lemma add_updater_returns:
  assumes "reaction \<notin> Object_prototype"
  shows "\<exists>m'. add_updater uid reaction a msg = Inr m' \<and> msg_id m' = msg_id msg
            \<and> (m' = msg \<or> oid m' = a)"
  using assms by (simp add: add_updater_def Let_def)


text \<open>For a reaction symbol that names an inherited property and is not an own key
  of the message's reactions, the updater raises, and so does a call on a connected
  socket that locates the message.\<close>

lemma add_updater_inherited:
  assumes "reaction \<in> Object_prototype"
      and "case reactions msg of None \<Rightarrow> True | Some r \<Rightarrow> r reaction = None"
  shows "add_updater uid reaction a msg = Inl TypeError"
  using assms by (simp add: add_updater_def Let_def split: option.splits)

lemma handleReactionAdd_inherited:
  assumes "socketRef s = Some so" "connected so"
      and "findIndex (\<lambda>m. msg_id m = messageId) (messages s) = Some i"
      and "reaction \<in> Object_prototype"
      and "case reactions (messages s ! i) of None \<Rightarrow> True | Some r \<Rightarrow> r reaction = None"
  shows "handleReactionAdd snapshot uid messageId reaction s = Inl TypeError"
  using assms add_updater_inherited [OF assms(4,5)]
  by (simp add: handleReactionAdd_def optimisticAdd_def Let_def)

text \<open>Where the updater returns, the optimistic update is \<^verbatim>\<open>updateSingleMessage\<close>
  with that updater.\<close>

lemma optimisticAdd_updateSingleMessage:
  assumes "reaction \<notin> Object_prototype"
  shows "optimisticAdd uid messageId reaction s
       = Inr (updateSingleMessage messageId
                (\<lambda>a msg. case add_updater uid reaction a msg of Inr m' \<Rightarrow> m' | Inl e \<Rightarrow> msg) s)"
proof (cases "findIndex (\<lambda>m. msg_id m = messageId) (messages s)")
  case None
  then show ?thesis by (simp add: optimisticAdd_def updateSingleMessage_def)
next
  case (Some i)
  from add_updater_returns [OF assms] obtain m'
    where "add_updater uid reaction (next_addr s) (messages s ! i) = Inr m'" by blast
  with Some show ?thesis by (simp add: optimisticAdd_def updateSingleMessage_def Let_def)
qed






subsection \<open>Read receipts\<close>

lemma markReadAll_length: "length (markReadAll u ids ts now a ms) = length ms"
  by (induction ms arbitrary: a) simp_all

lemma markReadAll_nth:
  "j < length ms \<Longrightarrow> markReadAll u ids ts now a ms ! j = markRead u ids ts now (a + j) (ms ! j)"
proof (induction ms arbitrary: a j)
  case Nil
  then show ?case by simp
next
  case (Cons m ms)
  then show ?case by (cases j) simp_all
qed

lemma alreadyRead_iff: "alreadyRead u m \<longleftrightarrow> 0 < entries_for u m"
  by (auto simp: alreadyRead_def entries_for_def list_ex_iff filter_empty_conv
      split: option.splits)

lemma markRead_entries:
  assumes le: "entries_for v m \<le> 1"
  shows "entries_for v (markRead u ids ts now a m) \<le> 1"
proof (cases "markRead u ids ts now a m = m")
  case True
  with le show ?thesis by simp
next
  case False
  then have nr: "entries_for u m = 0"
    by (auto simp: markRead_def alreadyRead_iff split: if_splits)
  show ?thesis
  proof (cases "v = u")
    case True
    with nr show ?thesis
      by (auto simp: markRead_def entries_for_def split: option.splits)
  next
    case False
    with le show ?thesis
      by (auto simp: markRead_def entries_for_def split: option.splits)
  qed
qed

subsection \<open>cleanup\<close>

lemma cleanup_rest_messages:
  "reason \<noteq> ''MANUAL'' \<Longrightarrow> messages (cleanup_rest reason s) = messages s
     \<and> messages_ref (cleanup_rest reason s) = messages_ref s"
  by (simp add: cleanup_rest_def Let_def)

lemma cleanup_rest_seen: "processedMessageIds (cleanup_rest reason s) = {}"
  by (simp add: cleanup_rest_def Let_def)

lemma cleanup_keeps_store:
  "reason \<noteq> ''MANUAL'' \<Longrightarrow> messages (cleanup reason s) = messages s
     \<and> messages_ref (cleanup reason s) = messages_ref s"
  by (simp add: cleanup_def Let_def emit_def cleanup_rest_messages split: option.splits)

lemma cleanup_clears_seen:
  "mountedRef s \<Longrightarrow> truthy_str (roomId s) \<Longrightarrow> \<not> cleanupInProgressRef s \<Longrightarrow> leave_ok s
   \<Longrightarrow> processedMessageIds (cleanup reason s) = {}"
  by (auto simp: cleanup_def Let_def emit_def leave_ok_def cleanup_rest_seen split: option.splits)

lemma cleanup_frame:
  "mountedRef (cleanup reason s) = mountedRef s \<and> roomId (cleanup reason s) = roomId s
   \<and> leave_ok (cleanup reason s) = leave_ok s"
  by (auto simp: cleanup_def cleanup_rest_def Let_def emit_def leave_ok_def detach_def
      split: option.splits)

lemma cleanup_not_in_progress:
  "\<not> cleanupInProgressRef s \<Longrightarrow> \<not> cleanupInProgressRef (cleanup reason s)"
  by (simp add: cleanup_def Let_def)

text \<open>With the strings the function compares against, \<^verbatim>\<open>"MANUAL"\<close> (also the
  parameter's default) and \<^verbatim>\<open>"DISCONNECT"\<close>, a cleanup that runs does reset.\<close>

lemma cleanup_MANUAL_resets:
  assumes "mountedRef s" "truthy_str (roomId s)" "\<not> cleanupInProgressRef s" "leave_ok s"
  shows "messages (cleanup ''MANUAL'' s) = [] \<and> processedMessageIds (cleanup ''MANUAL'' s) = {}
       \<and> error (cleanup ''MANUAL'' s) = None"
  using assms
  by (auto simp: cleanup_def cleanup_rest_def Let_def emit_def leave_ok_def split: option.splits)

lemma cleanup_DISCONNECT_then_MANUAL:
  assumes "mountedRef s" "truthy_str (roomId s)" "\<not> cleanupInProgressRef s" "leave_ok s"
  shows "messages (cleanup ''MANUAL'' (cleanup ''DISCONNECT'' s)) = []
       \<and> processedMessageIds (cleanup ''MANUAL'' (cleanup ''DISCONNECT'' s)) = {}
       \<and> error (cleanup ''MANUAL'' (cleanup ''DISCONNECT'' s)) = None"
  using assms cleanup_frame [of "''DISCONNECT''" s] cleanup_not_in_progress [of s "''DISCONNECT''"]
  by (intro cleanup_MANUAL_resets) simp_all

lemma cleanup_DISCONNECT_status:
  assumes "mountedRef s" "truthy_str (roomId s)" "\<not> cleanupInProgressRef s" "leave_ok s"
  shows "error (cleanup ''DISCONNECT'' s) = Some ConnectionLostRetrying"
  using assms
  by (auto simp: cleanup_def cleanup_rest_def Let_def emit_def leave_ok_def split: option.splits)

text \<open>The reasons of the table are not the strings \<^verbatim>\<open>cleanup\<close> compares against.\<close>

lemma CLEANUP_REASONS_lowercase:
  "CLEANUP_REASONS_MANUAL = ''manual'' \<and> CLEANUP_REASONS_MANUAL \<noteq> ''MANUAL''
   \<and> CLEANUP_REASONS_DISCONNECT = ''disconnect'' \<and> CLEANUP_REASONS_DISCONNECT \<noteq> ''DISCONNECT''"
  by (simp add: CLEANUP_REASONS_MANUAL_def CLEANUP_REASONS_DISCONNECT_def)

subsection \<open>History payloads\<close>

text \<open>An object without a \<^verbatim>\<open>messages\<close> field is not malformed for the handler: the
  destructuring default makes it an empty batch.\<close>

lemma absent_messages_field:
  "handlePreviousMessages eng snap (Obj None h) s = handlePreviousMessages eng snap (Obj (Some (Arr [])) h) s"
  by (simp add: handlePreviousMessages_def previousMessages_try_def)

section \<open>The claims\<close>

text \<open>
  C1 (the store is sorted ascending by timestamp after every admission, a single live
  message included). The \<^verbatim>\<open>message\<close> listener appends the admitted message to the
  end of the array and does not sort, while \<^verbatim>\<open>processMessages\<close> sorts the whole
  store (\<open>history_batch_sorted\<close>). On a freshly mounted hook, whose listeners captured
  the empty array, a live message with
  timestamp 5 followed by a live message with timestamp 2 leaves the store in arrival
  order, which is not ascending; the store was sorted after the first of them.
\<close>

theorem C1_live_message_not_sorted:
  "messages (run id [] [Message (Some (mk_message 10 ''a'' 5)), Message (Some (mk_message 11 ''b'' 2))]
       (initial_state (Some ''room'') (Some open_socket)))
     = [mk_message 10 ''a'' 5, mk_message 11 ''b'' 2]
   \<and> \<not> store_sorted (run id [] [Message (Some (mk_message 10 ''a'' 5)),
                           Message (Some (mk_message 11 ''b'' 2))]
       (initial_state (Some ''room'') (Some open_socket)))
   \<and> store_sorted (run id [] [Message (Some (mk_message 10 ''a'' 5))]
       (initial_state (Some ''room'') (Some open_socket)))"
  by (simp add: run_def on_message_def initial_state_def store_sorted_def ts_key_def
      truthy_str_def mk_message_def)

text \<open>
  C2 (idempotent admission). Whatever sequence of live messages and history batches
  is delivered, a store whose ids are distinct, the empty store of a fresh hook in
  particular, afterwards holds at most one entry with any given id. A candidate
  without an id, or with an id in \<^verbatim>\<open>processedMessageIds\<close>, is rejected: as a live
  message it leaves the whole state unchanged, and as an element of a history batch
  it makes no difference to the outcome of the batch.
\<close>

theorem C2_ids_admitted_at_most_once:
  "(distinct (map msg_id (messages s))
      \<longrightarrow> length (filter (\<lambda>m. msg_id m = k) (messages (run eng captured evs s))) \<le> 1)
   \<and> length (filter (\<lambda>m. msg_id m = k)
        (messages (run eng captured evs (initial_state room so)))) \<le> 1
   \<and> (rejected (processedMessageIds s) m \<longrightarrow> on_message (Some m) s = s)
   \<and> (rejected (processedMessageIds s) m
      \<longrightarrow> handlePreviousMessages eng snap (Obj (Some (Arr (xs @ m # ys))) h) s
          = handlePreviousMessages eng snap (Obj (Some (Arr (xs @ ys))) h) s)"
proof -
  have a: "distinct (map msg_id (messages s'))
      \<Longrightarrow> length (filter (\<lambda>m. msg_id m = k) (messages (run eng captured evs s'))) \<le> 1" for s'
    by (rule distinct_count_le1) (rule run_distinct)
  have "distinct (map msg_id (messages (initial_state room so)))"
    by (simp add: initial_state_def)
  from a [OF this] a [of s] on_message_rejected [of s m]
    handlePreviousMessages_skip [where s = s and m = m and eng = eng and snap = snap
      and xs = xs and ys = ys and h = h]
  show ?thesis by blast
qed

theorem C2_ids_admitted_at_most_once_witness:
  "length (filter (\<lambda>m. msg_id m = Some ''a'')
      (messages (run id [] [Message (Some (mk_message 10 ''a'' 5)),
                      PreviousMessages (Obj (Some (Arr [mk_message 11 ''a'' 5, mk_message 12 ''b'' 2])) True),
                      Message (Some (mk_message 13 ''a'' 5))]
                 (initial_state (Some ''room'') (Some open_socket))))) \<le> 1
   \<and> on_message (Some (mk_message 13 ''a'' 5))
        ((initial_state (Some ''room'') (Some open_socket))\<lparr>processedMessageIds := {''a''}\<rparr>)
      = (initial_state (Some ''room'') (Some open_socket))\<lparr>processedMessageIds := {''a''}\<rparr>
   \<and> handlePreviousMessages id []
        (Obj (Some (Arr ([mk_message 12 ''b'' 2] @ mk_message 13 ''a'' 5 # []))) True)
        ((initial_state (Some ''room'') (Some open_socket))\<lparr>processedMessageIds := {''a''}\<rparr>)
      = handlePreviousMessages id [] (Obj (Some (Arr ([mk_message 12 ''b'' 2] @ []))) True)
        ((initial_state (Some ''room'') (Some open_socket))\<lparr>processedMessageIds := {''a''}\<rparr>)"
  using C2_ids_admitted_at_most_once
    [where s = "(initial_state (Some ''room'') (Some open_socket))\<lparr>processedMessageIds := {''a''}\<rparr>"
       and k = "Some ''a''" and eng = id and captured = "[]"
       and evs = "[Message (Some (mk_message 10 ''a'' 5)),
          PreviousMessages (Obj (Some (Arr [mk_message 11 ''a'' 5, mk_message 12 ''b'' 2])) True),
          Message (Some (mk_message 13 ''a'' 5))]"
       and room = "Some ''room''" and so = "Some open_socket" and m = "mk_message 13 ''a'' 5"
       and snap = "[]" and xs = "[mk_message 12 ''b'' 2]" and ys = "[]" and h = True]
  by (simp add: rejected_def mk_message_def)




text \<open>
  C4 (the server's reaction delta wins). On a mounted hook, for a
  \<^verbatim>\<open>messageReactionUpdate\<close> event whose \<^verbatim>\<open>messageId\<close> is the id of a message of the
  store, the message with that id afterwards carries exactly the \<^verbatim>\<open>reactions\<close> of
  the event, whatever reactions it had before (optimistic or not).
\<close>

theorem C4_reaction_update_server_wins:
  assumes mounted: "mountedRef s"
      and present: "list_ex (\<lambda>m. msg_id m = messageId) (messages s)"
      and fresh: "addrs_fresh s"
  shows "\<exists>m'. find (\<lambda>m. msg_id m = messageId)
                (messages (on_messageReactionUpdate messageId rs s)) = Some m'
              \<and> reactions m' = rs"
proof -
  from findIndex_present [OF present] obtain i
    where i: "findIndex (\<lambda>m. msg_id m = messageId) (messages s) = Some i" ..
  let ?old = "messages s ! i"
  let ?new = "?old\<lparr>oid := next_addr s, reactions := rs\<rparr>"
  from findIndex_SomeD [OF i] have len: "i < length (messages s)"
    and p: "msg_id ?old = messageId" by simp_all
  from fresh len have "oid ?old < next_addr s"
    by (simp add: addrs_fresh_def list_all_length)
  then have neq: "oid ?new \<noteq> oid ?old" by simp
  have ms: "messages (on_messageReactionUpdate messageId rs s) = (messages s)[i := ?new]"
    using mounted i neq
    by (simp add: on_messageReactionUpdate_def handleReactionUpdate_def
        updateSingleMessage_def Let_def)
  have "findIndex (\<lambda>m. msg_id m = messageId) ((messages s)[i := ?new]) = Some i"
    using i p by (intro findIndex_update) simp_all
  from findIndex_find [OF this] len
  have "find (\<lambda>m. msg_id m = messageId) ((messages s)[i := ?new]) = Some ?new" by simp
  with ms show ?thesis by simp
qed

theorem C4_reaction_update_server_wins_witness:
  "map reactions (messages (on_messageReactionUpdate (Some ''m1'') (Some [''like'' \<mapsto> [''u2'']])
      ((initial_state (Some ''room'') (Some open_socket))
         \<lparr>messages := [(mk_message 1 ''m1'' 5)\<lparr>reactions := Some [''like'' \<mapsto> [''u1'']]\<rparr>],
          next_addr := 2\<rparr>)))
   = [Some [''like'' \<mapsto> [''u2'']]]"
  using C4_reaction_update_server_wins [of
     "(initial_state (Some ''room'') (Some open_socket))
         \<lparr>messages := [(mk_message 1 ''m1'' 5)\<lparr>reactions := Some [''like'' \<mapsto> [''u1'']]\<rparr>],
          next_addr := 2\<rparr>"
     "Some ''m1''" "Some [''like'' \<mapsto> [''u2'']]"]
  by (auto simp: initial_state_def addrs_fresh_def mk_message_def on_messageReactionUpdate_def
      handleReactionUpdate_def updateSingleMessage_def)

text \<open>
  C5 (\<^verbatim>\<open>updateSingleMessage\<close> keeps the collection when nothing changes), as amended.
  The code compares the transform's result with the located message by reference
  (\<^verbatim>\<open>updatedMessage === oldMessage\<close>): when the transform returns the very object
  it was given, the call returns the original array, and indeed changes nothing at
  all; when no message has the id, the call is a no-op as well. A transform that
  builds a new object with equal fields does not keep the array (see the
  counterexample below).
\<close>

theorem C5_same_reference_keeps_collection:
  "(findIndex (\<lambda>m. msg_id m = messageId) (messages s) = Some i \<and>
      oid (transform (next_addr s) (messages s ! i)) = oid (messages s ! i)
      \<longrightarrow> updateSingleMessage messageId transform s = s)
   \<and> (findIndex (\<lambda>m. msg_id m = messageId) (messages s) = None
      \<longrightarrow> updateSingleMessage messageId transform s = s)"
  by (simp add: updateSingleMessage_def Let_def)

text \<open>The rollback updater whose captured array is the store returns the located
  object itself; an unknown id is a no-op.\<close>

theorem C5_same_reference_keeps_collection_witness:
  "updateSingleMessage (Some ''m1'')
      (rollback_updater [(mk_message 1 ''m1'' 5)\<lparr>reactions := Some [''like'' \<mapsto> [''u1'']]\<rparr>]
         (Some ''m1''))
      ((initial_state (Some ''room'') (Some open_socket))
         \<lparr>messages := [(mk_message 1 ''m1'' 5)\<lparr>reactions := Some [''like'' \<mapsto> [''u1'']]\<rparr>],
          next_addr := 2\<rparr>)
    = (initial_state (Some ''room'') (Some open_socket))
         \<lparr>messages := [(mk_message 1 ''m1'' 5)\<lparr>reactions := Some [''like'' \<mapsto> [''u1'']]\<rparr>],
          next_addr := 2\<rparr>
   \<and> updateSingleMessage (Some ''zz'')
      (rollback_updater [(mk_message 1 ''m1'' 5)\<lparr>reactions := Some [''like'' \<mapsto> [''u1'']]\<rparr>]
         (Some ''zz''))
      ((initial_state (Some ''room'') (Some open_socket))
         \<lparr>messages := [(mk_message 1 ''m1'' 5)\<lparr>reactions := Some [''like'' \<mapsto> [''u1'']]\<rparr>],
          next_addr := 2\<rparr>)
    = (initial_state (Some ''room'') (Some open_socket))
         \<lparr>messages := [(mk_message 1 ''m1'' 5)\<lparr>reactions := Some [''like'' \<mapsto> [''u1'']]\<rparr>],
          next_addr := 2\<rparr>"
  using C5_same_reference_keeps_collection [where messageId = "Some ''m1''"
      and s = "(initial_state (Some ''room'') (Some open_socket))
         \<lparr>messages := [(mk_message 1 ''m1'' 5)\<lparr>reactions := Some [''like'' \<mapsto> [''u1'']]\<rparr>],
          next_addr := 2\<rparr>" and i = 0
      and transform = "rollback_updater
         [(mk_message 1 ''m1'' 5)\<lparr>reactions := Some [''like'' \<mapsto> [''u1'']]\<rparr>] (Some ''m1'')"]
    C5_same_reference_keeps_collection [where messageId = "Some ''zz''"
      and s = "(initial_state (Some ''room'') (Some open_socket))
         \<lparr>messages := [(mk_message 1 ''m1'' 5)\<lparr>reactions := Some [''like'' \<mapsto> [''u1'']]\<rparr>],
          next_addr := 2\<rparr>" and i = 0
      and transform = "rollback_updater
         [(mk_message 1 ''m1'' 5)\<lparr>reactions := Some [''like'' \<mapsto> [''u1'']]\<rparr>] (Some ''zz'')"]
  by (simp add: initial_state_def mk_message_def rollback_updater_def)

text \<open>
  C5 as stated fails: the transform of \<^verbatim>\<open>handleReactionUpdate\<close>,
  \<^verbatim>\<open>(msg) => ({ ...msg, reactions })\<close>, applied with the reactions the message
  already has, returns a message equal to the located one field by field, and the
  store is a new array (address 3 instead of 0).
\<close>

theorem C5_equal_message_new_collection:
  "same_fields
      (messages (handleReactionUpdate (Some ''m1'') (Some [''like'' \<mapsto> [''u1'']])
          ((initial_state (Some ''room'') (Some open_socket))
             \<lparr>messages := [(mk_message 1 ''m1'' 5)\<lparr>reactions := Some [''like'' \<mapsto> [''u1'']]\<rparr>],
              next_addr := 2\<rparr>)) ! 0)
      ((mk_message 1 ''m1'' 5)\<lparr>reactions := Some [''like'' \<mapsto> [''u1'']]\<rparr>)
   \<and> messages_ref (handleReactionUpdate (Some ''m1'') (Some [''like'' \<mapsto> [''u1'']])
          ((initial_state (Some ''room'') (Some open_socket))
             \<lparr>messages := [(mk_message 1 ''m1'' 5)\<lparr>reactions := Some [''like'' \<mapsto> [''u1'']]\<rparr>],
              next_addr := 2\<rparr>)) = 3
   \<and> messages_ref ((initial_state (Some ''room'') (Some open_socket))
             \<lparr>messages := [(mk_message 1 ''m1'' 5)\<lparr>reactions := Some [''like'' \<mapsto> [''u1'']]\<rparr>],
              next_addr := 2\<rparr>) = 0"
  by (simp add: handleReactionUpdate_def updateSingleMessage_def initial_state_def
      mk_message_def same_fields_def)

text \<open>
  C6 (read receipts). On a mounted hook, for a \<^verbatim>\<open>messagesRead\<close> event with a
  timestamp, the array keeps its length, and for a message whose id is in
  \<^verbatim>\<open>messageIds\<close>: if its readers already hold an entry for the user, the message is
  left as it is; otherwise exactly one entry with the user and the event's timestamp
  is appended. For every message and every user, readers that hold at most one entry
  for the user before hold at most one afterwards.
\<close>

theorem C6_messagesRead_adds_one_reader:
  assumes mounted: "mountedRef s"
      and ts: "ts = Some t" "t \<noteq> 0"
      and j: "j < length (messages s)"
  shows "length (messages (on_messagesRead userId messageIds ts now s)) = length (messages s)
       \<and> (msg_id (messages s ! j) = Some i \<and> i \<in> set messageIds
            \<and> 0 < entries_for userId (messages s ! j)
            \<longrightarrow> messages (on_messagesRead userId messageIds ts now s) ! j = messages s ! j)
       \<and> (msg_id (messages s ! j) = Some i \<and> i \<in> set messageIds
            \<and> entries_for userId (messages s ! j) = 0
            \<longrightarrow> messages (on_messagesRead userId messageIds ts now s) ! j
                 = (messages s ! j)\<lparr>oid := Suc (next_addr s) + j,
                      readers := Some ((case readers (messages s ! j) of
                                          None \<Rightarrow> [] | Some rs \<Rightarrow> rs)
                         @ [\<lparr>r_userId = Some userId, r_id = None, readAt = Some t\<rparr>])\<rparr>)
       \<and> (entries_for v (messages s ! j) \<le> 1
            \<longrightarrow> entries_for v (messages (on_messagesRead userId messageIds ts now s) ! j) \<le> 1)"
proof -
  have nth: "messages (on_messagesRead userId messageIds ts now s) ! j
             = markRead userId messageIds ts now (Suc (next_addr s) + j) (messages s ! j)"
    using mounted j by (simp add: on_messagesRead_def markReadAll_nth)
  have len: "length (messages (on_messagesRead userId messageIds ts now s)) = length (messages s)"
    using mounted by (simp add: on_messagesRead_def markReadAll_length)
  show ?thesis
    unfolding nth using len ts markRead_entries [of v "messages s ! j"]
    by (simp add: markRead_def readAt_value_def alreadyRead_iff)
qed

theorem C6_messagesRead_adds_one_reader_witness:
  "map readers (messages (on_messagesRead ''u1'' [''m1'', ''m2''] (Some 100) 999
      ((initial_state (Some ''room'') (Some open_socket))
         \<lparr>messages := [mk_message 1 ''m1'' 5,
                       (mk_message 2 ''m2'' 7)\<lparr>readers := Some
                          [\<lparr>r_userId = Some ''u1'', r_id = None, readAt = Some 50\<rparr>]\<rparr>],
          next_addr := 3\<rparr>)))
   = [Some [\<lparr>r_userId = Some ''u1'', r_id = None, readAt = Some 100\<rparr>],
      Some [\<lparr>r_userId = Some ''u1'', r_id = None, readAt = Some 50\<rparr>]]"
  using C6_messagesRead_adds_one_reader [of
      "(initial_state (Some ''room'') (Some open_socket))
         \<lparr>messages := [mk_message 1 ''m1'' 5,
                       (mk_message 2 ''m2'' 7)\<lparr>readers := Some
                          [\<lparr>r_userId = Some ''u1'', r_id = None, readAt = Some 50\<rparr>]\<rparr>],
          next_addr := 3\<rparr>"
      "Some 100" 100 0 "''u1''" "[''m1'', ''m2'']" 999 "''m1''" "''u1''"]
    C6_messagesRead_adds_one_reader [of
      "(initial_state (Some ''room'') (Some open_socket))
         \<lparr>messages := [mk_message 1 ''m1'' 5,
                       (mk_message 2 ''m2'' 7)\<lparr>readers := Some
                          [\<lparr>r_userId = Some ''u1'', r_id = None, readAt = Some 50\<rparr>]\<rparr>],
          next_addr := 3\<rparr>"
      "Some 100" 100 1 "''u1''" "[''m1'', ''m2'']" 999 "''m2''" "''u1''"]
  by (simp add: initial_state_def mk_message_def entries_for_def on_messagesRead_def
      markRead_def alreadyRead_def readAt_value_def)

text \<open>
  C7 (\<^verbatim>\<open>cleanup("disconnect")\<close> then \<^verbatim>\<open>cleanup("manual")\<close> empties the store and
  clears the error). The function compares its reason with the upper-case strings
  \<^verbatim>\<open>"MANUAL"\<close> and \<^verbatim>\<open>"DISCONNECT"\<close>, while the reasons of the claim, which are the
  values of the table \<^verbatim>\<open>CLEANUP_REASONS\<close>, are lower-case. On a mounted hook in a
  room, with one message in the store and an error shown, the two calls leave the
  message in the store and the error in place. With the upper-case strings the same
  two calls do reset (\<open>cleanup_DISCONNECT_then_MANUAL\<close>).
\<close>

theorem C7_lowercase_manual_keeps_store:
  "messages (cleanup ''manual'' (cleanup ''disconnect''
      ((initial_state (Some ''room'') (Some open_socket))
         \<lparr>messages := [mk_message 1 ''m1'' 5], next_addr := 2,
          processedMessageIds := {''m1''}, error := Some (OtherNotice ''load failed'')\<rparr>)))
     = [mk_message 1 ''m1'' 5]
   \<and> error (cleanup ''manual'' (cleanup ''disconnect''
      ((initial_state (Some ''room'') (Some open_socket))
         \<lparr>messages := [mk_message 1 ''m1'' 5], next_addr := 2,
          processedMessageIds := {''m1''}, error := Some (OtherNotice ''load failed'')\<rparr>)))
     = Some (OtherNotice ''load failed'')"
  by (simp add: cleanup_def cleanup_rest_def initial_state_def truthy_str_def Let_def
      open_socket_def emit_def detach_def)

theorem C7_lowercase_manual_keeps_store_witness:
  "messages (cleanup ''manual'' (cleanup ''disconnect''
      ((initial_state (Some ''room'') (Some open_socket))
         \<lparr>messages := [mk_message 1 ''m1'' 5], next_addr := 2,
          processedMessageIds := {''m1''}, error := Some (OtherNotice ''load failed'')\<rparr>)))
     \<noteq> []"
  using C7_lowercase_manual_keeps_store by simp

text \<open>
  C8 (a cleanup with reason disconnect preserves the store and the seen ids), as
  amended. A cleanup with reason disconnect, in either spelling, leaves the message
  array as it was, the same array with the same elements. The set
  \<^verbatim>\<open>processedMessageIds\<close> is not preserved: the function clears it for every
  reason, so it is empty after every cleanup that runs (hook mounted, a room, no
  cleanup in progress, the leaveRoom emit not raising).
\<close>

theorem C8_disconnect_keeps_store_clears_seen:
  assumes "reason = ''disconnect'' \<or> reason = ''DISCONNECT''"
  shows "messages (cleanup reason s) = messages s
       \<and> messages_ref (cleanup reason s) = messages_ref s
       \<and> (mountedRef s \<and> truthy_str (roomId s) \<and> \<not> cleanupInProgressRef s \<and> leave_ok s
            \<longrightarrow> processedMessageIds (cleanup reason s) = {})"
proof -
  from assms have "reason \<noteq> ''MANUAL''" by auto
  from cleanup_keeps_store [OF this] cleanup_clears_seen show ?thesis by blast
qed

theorem C8_disconnect_keeps_store_clears_seen_witness:
  "messages (cleanup ''disconnect'' ((initial_state (Some ''room'') (Some open_socket))
       \<lparr>messages := [mk_message 1 ''m1'' 5], next_addr := 2, processedMessageIds := {''m1''}\<rparr>))
     = [mk_message 1 ''m1'' 5]
   \<and> processedMessageIds (cleanup ''disconnect'' ((initial_state (Some ''room'') (Some open_socket))
       \<lparr>messages := [mk_message 1 ''m1'' 5], next_addr := 2, processedMessageIds := {''m1''}\<rparr>))
     = {}"
  using C8_disconnect_keeps_store_clears_seen [of "''disconnect''"
      "(initial_state (Some ''room'') (Some open_socket))
       \<lparr>messages := [mk_message 1 ''m1'' 5], next_addr := 2, processedMessageIds := {''m1''}\<rparr>"]
  by (simp add: initial_state_def truthy_str_def leave_ok_def open_socket_def)

text \<open>C8 as stated fails: the set of seen ids holds \<open>m1\<close> before the call and is empty
  after it, for either spelling of the reason.\<close>

theorem C8_disconnect_clears_seen_ids:
  "processedMessageIds ((initial_state (Some ''room'') (Some open_socket))
       \<lparr>messages := [mk_message 1 ''m1'' 5], next_addr := 2, processedMessageIds := {''m1''}\<rparr>)
     = {''m1''}
   \<and> processedMessageIds (cleanup ''disconnect'' ((initial_state (Some ''room'') (Some open_socket))
       \<lparr>messages := [mk_message 1 ''m1'' 5], next_addr := 2, processedMessageIds := {''m1''}\<rparr>))
     = {}
   \<and> processedMessageIds (cleanup ''DISCONNECT'' ((initial_state (Some ''room'') (Some open_socket))
       \<lparr>messages := [mk_message 1 ''m1'' 5], next_addr := 2, processedMessageIds := {''m1''}\<rparr>))
     = {}"
  by (simp add: cleanup_def cleanup_rest_def initial_state_def truthy_str_def Let_def
      open_socket_def emit_def detach_def)



text \<open>
  C10 (\<^verbatim>\<open>updateSingleMessage\<close> replaces one entry). When a message with the id is
  found and the transform returns another object than the one it was given, the new
  array has the length of the old one, every entry at another position is the very
  object it was, and the entry at the position of the located message is the
  transform's result.
\<close>

theorem C10_only_target_replaced:
  assumes found: "findIndex (\<lambda>m. msg_id m = messageId) (messages s) = Some i"
      and new: "oid (transform (next_addr s) (messages s ! i)) \<noteq> oid (messages s ! i)"
  shows "length (messages (updateSingleMessage messageId transform s)) = length (messages s)
       \<and> (\<forall>j < length (messages s). j \<noteq> i \<longrightarrow>
             messages (updateSingleMessage messageId transform s) ! j = messages s ! j)
       \<and> i < length (messages s)
       \<and> msg_id (messages s ! i) = messageId
       \<and> messages (updateSingleMessage messageId transform s) ! i
           = transform (next_addr s) (messages s ! i)"
  using found new findIndex_SomeD [OF found]
  by (simp add: updateSingleMessage_def Let_def)

theorem C10_only_target_replaced_witness:
  "messages (updateSingleMessage (Some ''m2'') (rollback_updater [mk_message 0 ''m2'' 6] (Some ''m2''))
      ((initial_state (Some ''room'') (Some open_socket))
         \<lparr>messages := [mk_message 1 ''m1'' 5, mk_message 2 ''m2'' 7, mk_message 3 ''m3'' 9],
          next_addr := 4\<rparr>))
   = [mk_message 1 ''m1'' 5, mk_message 0 ''m2'' 6, mk_message 3 ''m3'' 9]"
  using C10_only_target_replaced [where messageId = "Some ''m2''"
      and s = "(initial_state (Some ''room'') (Some open_socket))
         \<lparr>messages := [mk_message 1 ''m1'' 5, mk_message 2 ''m2'' 7, mk_message 3 ''m3'' 9],
          next_addr := 4\<rparr>" and i = 1
      and transform = "rollback_updater [mk_message 0 ''m2'' 6] (Some ''m2'')"]
  by (simp add: initial_state_def mk_message_def rollback_updater_def updateSingleMessage_def)

end
